theory Spec2Isabelle
  imports Main
begin

section \<open>The document tree\<close>

text \<open>
  The page script \<^verbatim>\<open>static/js/base.js\<close> works on the browser's document tree. A node is
  a text node or an element with a tag name, its class list, its attributes and its
  children. A document is the pair of the children of \<^verbatim>\<open>head\<close> and of \<^verbatim>\<open>body\<close>; the
  \<^verbatim>\<open>html\<close>, \<^verbatim>\<open>head\<close> and \<^verbatim>\<open>body\<close> elements themselves carry none of the classes or tags
  the script selects on.
\<close>

datatype node =
    Text string
  | Element (tag: string) (classes: "string list") (attrs: "(string \<times> string) list")
      (kids: "node list")

record document =
  head :: "node list"
  body :: "node list"

text \<open>The text of an attribute, the empty string when the attribute is absent: what the
  attribute selectors compare and what \<^verbatim>\<open>rel\<close> and \<^verbatim>\<open>value\<close> give.\<close>

fun getAttribute :: "string \<Rightarrow> node \<Rightarrow> string" where
  "getAttribute a (Text s) = []"
| "getAttribute a (Element t c as ks) = (case map_of as a of None \<Rightarrow> [] | Some v \<Rightarrow> v)"

fun textContent :: "node \<Rightarrow> string" where
  "textContent (Text s) = s"
| "textContent (Element t c as ks) = concat (map textContent ks)"

text \<open>
  The properties \<^verbatim>\<open>script.src\<close> and \<^verbatim>\<open>link.href\<close> reflect their attribute as a URL: the
  empty string when the attribute is absent, and otherwise the attribute's text resolved
  against the base URL of the page. The browser's resolution is the parameter \<open>rs\<close>: the
  absolute URL a text resolves to, the empty text included (it resolves to the page's
  own URL), or the text itself where it does not parse.
\<close>

fun reflected_url :: "(string \<Rightarrow> string) \<Rightarrow> string \<Rightarrow> node \<Rightarrow> string" where
  "reflected_url rs a (Text s) = []"
| "reflected_url rs a (Element t c as ks) =
     (case map_of as a of None \<Rightarrow> [] | Some v \<Rightarrow> rs v)"

text \<open>The descendants of a node in tree order (preorder), the node itself excluded.\<close>

fun descendants :: "node \<Rightarrow> node list" where
  "descendants (Text s) = []"
| "descendants (Element t c as ks) = concat (map (\<lambda>k. k # descendants k) ks)"

definition forest_nodes :: "node list \<Rightarrow> node list" where
  "forest_nodes ks = concat (map (\<lambda>k. k # descendants k) ks)"

text \<open>\<^verbatim>\<open>root.querySelector\<close> and \<^verbatim>\<open>root.querySelectorAll\<close> for a selector given as a
  predicate on nodes: the first match, or all matches, in tree order.\<close>

definition querySelector :: "(node \<Rightarrow> bool) \<Rightarrow> node list \<Rightarrow> node option" where
  "querySelector p ks = find p (forest_nodes ks)"

definition querySelectorAll :: "(node \<Rightarrow> bool) \<Rightarrow> node list \<Rightarrow> node list" where
  "querySelectorAll p ks = filter p (forest_nodes ks)"

definition doc_querySelector :: "(node \<Rightarrow> bool) \<Rightarrow> document \<Rightarrow> node option" where
  "doc_querySelector p d = querySelector p (head d @ body d)"

definition doc_querySelectorAll :: "(node \<Rightarrow> bool) \<Rightarrow> document \<Rightarrow> node list" where
  "doc_querySelectorAll p d = querySelectorAll p (head d @ body d)"

text \<open>The selectors of the script.\<close>

fun has_class :: "string \<Rightarrow> node \<Rightarrow> bool" where
  "has_class c (Text s) = False"
| "has_class c (Element t cs as ks) = (c \<in> set cs)"

fun has_tag :: "string \<Rightarrow> node \<Rightarrow> bool" where
  "has_tag t (Text s) = False"
| "has_tag t (Element t' cs as ks) = (t' = t)"

definition is_stylesheet_link :: "node \<Rightarrow> bool" where
  "is_stylesheet_link n = (has_tag ''link'' n \<and> getAttribute ''rel'' n = ''stylesheet'')"

text \<open>\<^verbatim>\<open>cur.replaceWith(new)\<close> for \<^verbatim>\<open>cur\<close> the first match of \<open>p\<close> in tree order, and
  \<^verbatim>\<open>anchor.insertAdjacentElement('afterend', new)\<close> for \<^verbatim>\<open>anchor\<close> the first match of \<open>p\<close>.
  Both leave a forest without a match as it is.\<close>

fun replaceWith :: "(node \<Rightarrow> bool) \<Rightarrow> node \<Rightarrow> node list \<Rightarrow> node list" where
  "replaceWith p new [] = []"
| "replaceWith p new (Text s # ns) =
     (if p (Text s) then new # ns else Text s # replaceWith p new ns)"
| "replaceWith p new (Element t c as ks # ns) =
     (if p (Element t c as ks) then new # ns
      else if querySelector p ks \<noteq> None then Element t c as (replaceWith p new ks) # ns
      else Element t c as ks # replaceWith p new ns)"

fun insertAfter :: "(node \<Rightarrow> bool) \<Rightarrow> node \<Rightarrow> node list \<Rightarrow> node list" where
  "insertAfter p new [] = []"
| "insertAfter p new (Text s # ns) =
     (if p (Text s) then Text s # new # ns else Text s # insertAfter p new ns)"
| "insertAfter p new (Element t c as ks # ns) =
     (if p (Element t c as ks) then Element t c as ks # new # ns
      else if querySelector p ks \<noteq> None then Element t c as (insertAfter p new ks) # ns
      else Element t c as ks # insertAfter p new ns)"


section \<open>Patching the result region\<close>

text \<open>
  The body of the \<^verbatim>\<open>response.text()\<close> callback up to the script helpers: \<open>parsed\<close> is the
  document \<^verbatim>\<open>DOMParser.parseFromString(html, 'text/html')\<close> returns, \<open>d\<close> the live document.
\<close>

definition doc_replaceWith :: "(node \<Rightarrow> bool) \<Rightarrow> node \<Rightarrow> document \<Rightarrow> document" where
  "doc_replaceWith p new d =
     (if querySelector p (head d) \<noteq> None then d\<lparr>head := replaceWith p new (head d)\<rparr>
      else d\<lparr>body := replaceWith p new (body d)\<rparr>)"

definition doc_insertAfter :: "(node \<Rightarrow> bool) \<Rightarrow> node \<Rightarrow> document \<Rightarrow> document" where
  "doc_insertAfter p new d =
     (if querySelector p (head d) \<noteq> None then d\<lparr>head := insertAfter p new (head d)\<rparr>
      else d\<lparr>body := insertAfter p new (body d)\<rparr>)"

definition patchResult :: "document \<Rightarrow> document \<Rightarrow> document" where
  "patchResult parsed d =
     (let newResult = doc_querySelector (has_class ''analysis-result'') parsed;
          currentResult = doc_querySelector (has_class ''analysis-result'') d
      in case newResult of
           None \<Rightarrow> d
         | Some new \<Rightarrow>
             (if currentResult \<noteq> None
              then doc_replaceWith (has_class ''analysis-result'') new d
              else if doc_querySelector (has_class ''input-container'') d \<noteq> None
                   then doc_insertAfter (has_class ''input-container'') new d
                   else d))"

section \<open>Activating the scripts of the injected result\<close>

text \<open>\<^verbatim>\<open>String.prototype.includes\<close>.\<close>

fun str_includes :: "string \<Rightarrow> string \<Rightarrow> bool" where
  "str_includes [] sub = (sub = [])"
| "str_includes (c # r) sub = (take (length sub) (c # r) = sub \<or> str_includes r sub)"

definition ensureLeafletCSS :: "(string \<Rightarrow> string) \<Rightarrow> document \<Rightarrow> document" where
  "ensureLeafletCSS rs d =
     (let href = ''https://unpkg.com/leaflet@1.9.4/dist/leaflet.css'';
          already = list_ex (\<lambda>l. reflected_url rs ''href'' l \<noteq> [] \<and>
                                  str_includes (reflected_url rs ''href'' l) ''leaflet'')
                      (doc_querySelectorAll is_stylesheet_link d)
      in if \<not> already
         then d\<lparr>head := head d @ [Element ''link'' [] [(''rel'', ''stylesheet''), (''href'', href)] []]\<rparr>
         else d)"

text \<open>\<^verbatim>\<open>loadScript(src)\<close> appends a new script element to the body; the promise it
  returns settles when the browser reports the element's load or error.\<close>

definition script_element :: "string \<Rightarrow> node" where
  "script_element src = Element ''script'' [] [(''src'', src), (''async'', [])] []"

definition loadScript :: "string \<Rightarrow> document \<Rightarrow> document" where
  "loadScript src d = d\<lparr>body := body d @ [script_element src]\<rparr>"

definition inline_element :: "node \<Rightarrow> node" where
  "inline_element sc =
     Element ''script'' [] [] (if textContent sc \<noteq> [] then [Text (textContent sc)] else [])"

text \<open>The test \<^verbatim>\<open>if (sc.src)\<close>, and what one round of the loop appends for the script
  declaration \<open>sc\<close>.\<close>

definition external :: "(string \<Rightarrow> string) \<Rightarrow> node \<Rightarrow> bool" where
  "external rs sc = (reflected_url rs ''src'' sc \<noteq> [])"

definition activated :: "(string \<Rightarrow> string) \<Rightarrow> node \<Rightarrow> node" where
  "activated rs sc =
     (if external rs sc then script_element (reflected_url rs ''src'' sc) else inline_element sc)"

text \<open>
  The \<^verbatim>\<open>for (const sc of scripts)\<close> loop of \<^verbatim>\<open>executeScriptsFrom\<close>, run until it suspends
  at \<^verbatim>\<open>await loadScript(sc.src)\<close> or the list is exhausted. The result is the document and,
  when suspended, the awaited source with the declarations still to be visited.
\<close>

fun scriptLoop ::
  "(string \<Rightarrow> string) \<Rightarrow> node list \<Rightarrow> document \<Rightarrow> document \<times> (string \<times> node list) option"
where
  "scriptLoop rs [] d = (d, None)"
| "scriptLoop rs (sc # rest) d =
     (if reflected_url rs ''src'' sc \<noteq> []
      then (loadScript (reflected_url rs ''src'' sc) d, Some (reflected_url rs ''src'' sc, rest))
      else scriptLoop rs rest (d\<lparr>body := body d @ [inline_element sc]\<rparr>))"


section \<open>The page state\<close>

text \<open>
  The elements the \<^verbatim>\<open>DOMContentLoaded\<close> handler looks up once; each is present or \<^verbatim>\<open>null\<close>.
  \<^verbatim>\<open>document.getElementById('start-camera')\<close> in \<^verbatim>\<open>switchToUploadMode\<close> finds the element
  \<^verbatim>\<open>startButton\<close> names, and likewise for \<^verbatim>\<open>capture-photo\<close>. With them, what the page
  is given by the browser: its address and the resolution of URLs against its base URL.
\<close>

record env =
  uploadModeBtn :: bool
  cameraModeBtn :: bool
  uploadMode :: bool
  cameraMode :: bool
  video :: bool
  canvas :: bool
  startButton :: bool
  captureButton :: bool
  cameraPreview :: bool
  cameraPreviewContainer :: bool
  cameraForm :: bool
  cameraImageInput :: bool
  location_href :: string
  resolve_url :: "string \<Rightarrow> string"

text \<open>A request handed to \<^verbatim>\<open>fetch\<close>: the form fields are name and value, the value of
  the file field being the object URL the blob was read from.\<close>

record request =
  url :: string
  http_method :: string
  formData :: "(string \<times> string) list"
  headers :: "(string \<times> string) list"

text \<open>
  The mutable state: the closure variable \<^verbatim>\<open>stream\<close>, the properties of the controls the
  handlers write, the document tree, and what the browser holds for the page: the media
  streams whose tracks are not stopped, the promises not yet settled, the alerts shown and
  the console lines. Media streams are numbered in the order the browser hands them out.
  The properties of the looked-up controls are fields of the state; the tree holds the
  rest of the page, the result region and the scripts among it. What a script does when
  it runs is outside the model: a script is activated by appending its element.
\<close>

record page =
  stream :: "nat option"
  live_streams :: "nat list"
  next_stream :: nat
  pending_getUserMedia :: nat
  video_srcObject :: "nat option"
  start_disabled :: bool
  start_innerHTML :: string
  capture_disabled :: bool
  canvas_size :: "nat \<times> nat"
  pending_toBlob :: "(nat \<times> nat) list"
  cameraPreview_src :: string
  previewContainer_display :: string
  imageInput_value :: string
  uploadBtn_active :: bool
  cameraBtn_active :: bool
  uploadMode_display :: string
  cameraMode_display :: string
  blob_fetches :: "string list"
  in_flight :: "request list"
  alerts :: "string list"
  console :: "string list"
  doc :: document
  suspended :: "(string \<times> node list) list"

definition stop_tracks :: "page \<Rightarrow> page" where
  "stop_tracks p =
     (case stream p of
        None \<Rightarrow> p
      | Some h \<Rightarrow> p\<lparr>live_streams := removeAll h (live_streams p), stream := None\<rparr>)"

definition start_camera_label :: string where
  "start_camera_label = ''<i class=\"fas fa-camera\"></i> Start Camera''"

definition camera_running_label :: string where
  "camera_running_label = ''<i class=\"fas fa-camera\"></i> Camera Running''"

section \<open>Mode switching\<close>

definition switchToUploadMode :: "env \<Rightarrow> page \<Rightarrow> page" where
  "switchToUploadMode e p =
     (let p1 = p\<lparr>uploadBtn_active := True, cameraBtn_active := False,
                  uploadMode_display := (if uploadMode e then ''block'' else uploadMode_display p),
                  cameraMode_display := (if cameraMode e then ''none'' else cameraMode_display p)\<rparr>;
          p2 = stop_tracks p1;
          p3 = (if startButton e
                then p2\<lparr>start_disabled := False, start_innerHTML := start_camera_label\<rparr>
                else p2)
      in if captureButton e then p3\<lparr>capture_disabled := True\<rparr> else p3)"

definition switchToCameraMode :: "env \<Rightarrow> page \<Rightarrow> page" where
  "switchToCameraMode e p =
     p\<lparr>cameraBtn_active := True, uploadBtn_active := False,
       cameraMode_display := (if cameraMode e then ''block'' else cameraMode_display p),
       uploadMode_display := (if uploadMode e then ''none'' else uploadMode_display p)\<rparr>"

section \<open>The camera\<close>

text \<open>The click handler of \<^verbatim>\<open>startButton\<close> calls \<^verbatim>\<open>getUserMedia\<close> and suspends; the rest
  of its body runs when the promise settles.\<close>

definition startButton_click :: "page \<Rightarrow> page" where
  "startButton_click p = p\<lparr>pending_getUserMedia := pending_getUserMedia p + 1\<rparr>"

definition getUserMedia_resolved :: "env \<Rightarrow> page \<Rightarrow> page" where
  "getUserMedia_resolved e p =
     (let h = next_stream p
      in p\<lparr>pending_getUserMedia := pending_getUserMedia p - 1,
           next_stream := h + 1,
           live_streams := live_streams p @ [h],
           stream := Some h,
           video_srcObject := (if video e then Some h else video_srcObject p),
           start_disabled := True,
           capture_disabled := (if captureButton e then False else capture_disabled p),
           start_innerHTML := camera_running_label\<rparr>)"

definition getUserMedia_rejected :: "page \<Rightarrow> page" where
  "getUserMedia_rejected p =
     p\<lparr>pending_getUserMedia := pending_getUserMedia p - 1,
       console := console p @ [''Error accessing camera:''],
       alerts := alerts p @
         [''Error accessing camera. Please make sure you have granted camera permissions.'']\<rparr>"

text \<open>The click handler of \<^verbatim>\<open>captureButton\<close>; \<open>vw\<close> and \<open>vh\<close> are \<^verbatim>\<open>video.videoWidth\<close> and
  \<^verbatim>\<open>video.videoHeight\<close>. \<^verbatim>\<open>canvas.toBlob\<close> encodes the canvas as it is at the call and
  runs its callback later.\<close>

definition captureButton_click :: "nat \<Rightarrow> nat \<Rightarrow> page \<Rightarrow> page" where
  "captureButton_click vw vh p =
     (if stream p = None then p
      else p\<lparr>canvas_size := (vw, vh), pending_toBlob := pending_toBlob p @ [(vw, vh)]\<rparr>)"

text \<open>The \<^verbatim>\<open>toBlob\<close> callback for the oldest pending encoding; \<open>uuid\<close> is the browser's
  choice for the object URL. An empty canvas gives a \<^verbatim>\<open>null\<close> blob, on which
  \<^verbatim>\<open>URL.createObjectURL\<close> throws before anything is stored.\<close>

definition toBlob_callback :: "env \<Rightarrow> string \<Rightarrow> page \<Rightarrow> page" where
  "toBlob_callback e uuid p =
     (case pending_toBlob p of
        [] \<Rightarrow> p
      | (w, h) # rest \<Rightarrow>
          (if w = 0 \<or> h = 0 then p\<lparr>pending_toBlob := rest\<rparr>
           else let u = ''blob:'' @ uuid
                in p\<lparr>pending_toBlob := rest,
                     cameraPreview_src := (if cameraPreview e then u else cameraPreview_src p),
                     previewContainer_display :=
                       (if cameraPreviewContainer e then ''block'' else previewContainer_display p),
                     imageInput_value := (if cameraImageInput e then u else imageInput_value p)\<rparr>))"


section \<open>Submitting the captured photo\<close>

text \<open>The submit handler of \<^verbatim>\<open>cameraForm\<close>: without a stored capture it alerts and
  returns; otherwise it starts \<^verbatim>\<open>fetch(cameraImageInput.value)\<close>.\<close>

definition cameraForm_submit :: "page \<Rightarrow> page" where
  "cameraForm_submit p =
     (if imageInput_value p = [] then p\<lparr>alerts := alerts p @ [''Please capture a photo first'']\<rparr>
      else p\<lparr>blob_fetches := blob_fetches p @ [imageInput_value p]\<rparr>)"

definition remove_nth :: "nat \<Rightarrow> 'a list \<Rightarrow> 'a list" where
  "remove_nth i xs = take i xs @ drop (Suc i) xs"

definition csrf_field :: "document \<Rightarrow> (string \<times> string) list" where
  "csrf_field d =
     (case doc_querySelector (\<lambda>n. getAttribute ''name'' n = ''csrfmiddlewaretoken'') d of
        None \<Rightarrow> []
      | Some t \<Rightarrow> [(''csrfmiddlewaretoken'', getAttribute ''value'' t)])"

text \<open>The blob of the \<open>i\<close>-th pending read has arrived: the form data is built and the
  POST to the current page is started.\<close>

definition post_request :: "env \<Rightarrow> document \<Rightarrow> string \<Rightarrow> request" where
  "post_request e d u =
     \<lparr>url = location_href e, http_method = ''POST'',
      formData = (''image'', u) # csrf_field d,
      headers = [(''X-Requested-With'', ''XMLHttpRequest'')]\<rparr>"

definition blob_fetched :: "env \<Rightarrow> nat \<Rightarrow> page \<Rightarrow> page" where
  "blob_fetched e i p =
     (let u = blob_fetches p ! i
      in p\<lparr>blob_fetches := remove_nth i (blob_fetches p),
           in_flight := in_flight p @ [post_request e (doc p) u]\<rparr>)"

text \<open>The read of the object URL failed: the outer promise chain has no \<^verbatim>\<open>catch\<close>.\<close>

definition blob_fetch_failed :: "nat \<Rightarrow> page \<Rightarrow> page" where
  "blob_fetch_failed i p = p\<lparr>blob_fetches := remove_nth i (blob_fetches p)\<rparr>"

text \<open>\<^verbatim>\<open>executeScriptsFrom(container)\<close> up to its first suspension.\<close>

definition executeScriptsFrom :: "env \<Rightarrow> node option \<Rightarrow> page \<Rightarrow> page" where
  "executeScriptsFrom e container p =
     (case container of
        None \<Rightarrow> p
      | Some c \<Rightarrow>
          (let d1 = ensureLeafletCSS (resolve_url e) (doc p);
               scripts = filter (has_tag ''script'') (descendants c);
               (d2, st) = scriptLoop (resolve_url e) scripts d1
           in p\<lparr>doc := d2,
                suspended := suspended p @ (case st of None \<Rightarrow> [] | Some w \<Rightarrow> [w])\<rparr>))"

text \<open>The promise of the \<open>i\<close>-th suspended \<^verbatim>\<open>executeScriptsFrom\<close> settles: a failed load is
  logged, and in both cases the loop goes on with the next declaration.\<close>

definition script_settled :: "env \<Rightarrow> nat \<Rightarrow> bool \<Rightarrow> page \<Rightarrow> page" where
  "script_settled e i loaded p =
     (let (src, rest) = suspended p ! i;
          p1 = (if loaded then p else p\<lparr>console := console p @ [''Failed loading script: '' @ src]\<rparr>);
          (d2, st) = scriptLoop (resolve_url e) rest (doc p1)
      in p1\<lparr>doc := d2,
            suspended := (case st of None \<Rightarrow> remove_nth i (suspended p1)
                                   | Some w \<Rightarrow> (suspended p1)[i := w])\<rparr>)"

text \<open>What the POST settles with: a response with \<^verbatim>\<open>response.ok\<close> and its body as
  \<^verbatim>\<open>DOMParser\<close> parses it, a response with another status, or a rejected \<^verbatim>\<open>fetch\<close>.\<close>

datatype response = Ok document | NotOk | Rejected

definition reset_camera :: "env \<Rightarrow> page \<Rightarrow> page" where
  "reset_camera e p =
     (let p1 = p\<lparr>previewContainer_display :=
                    (if cameraPreviewContainer e then ''none'' else previewContainer_display p),
                  imageInput_value := []\<rparr>;
          p2 = stop_tracks p1;
          p3 = (if startButton e
                then p2\<lparr>start_disabled := False, start_innerHTML := start_camera_label\<rparr>
                else p2)
      in if captureButton e then p3\<lparr>capture_disabled := True\<rparr> else p3)"

definition response_ok :: "env \<Rightarrow> document \<Rightarrow> page \<Rightarrow> page" where
  "response_ok e parsed p =
     (let p1 = p\<lparr>doc := patchResult parsed (doc p)\<rparr>;
          injected = doc_querySelector (has_class ''analysis-result'') (doc p1);
          p2 = executeScriptsFrom e injected p1
      in reset_camera e p2)"

definition response_failed :: "page \<Rightarrow> page" where
  "response_failed p =
     p\<lparr>console := console p @ [''Error:''],
       alerts := alerts p @ [''Error submitting photo. Please try again.'']\<rparr>"

definition post_settled :: "env \<Rightarrow> nat \<Rightarrow> response \<Rightarrow> page \<Rightarrow> page" where
  "post_settled e i r p =
     (let p1 = p\<lparr>in_flight := remove_nth i (in_flight p)\<rparr>
      in case r of Ok parsed \<Rightarrow> response_ok e parsed p1
                 | NotOk \<Rightarrow> response_failed p1
                 | Rejected \<Rightarrow> response_failed p1)"

definition beforeunload :: "page \<Rightarrow> page" where
  "beforeunload p =
     (case stream p of None \<Rightarrow> p
      | Some h \<Rightarrow> p\<lparr>live_streams := removeAll h (live_streams p)\<rparr>)"

section \<open>Events\<close>

text \<open>
  What can happen to the page, and the handler each event runs. A handler runs only when
  it was registered (its elements exist), a disabled button receives no click, and a
  promise settles only if it is pending.
\<close>

datatype event =
    ClickUploadMode
  | ClickCameraMode
  | ClickStart
  | GetUserMediaResolved
  | GetUserMediaRejected
  | ClickCapture nat nat
  | ToBlobDone string
  | Submit
  | BlobFetched nat
  | BlobFetchFailed nat
  | PostSettled nat response
  | ScriptSettled nat bool
  | BeforeUnload

fun step :: "env \<Rightarrow> event \<Rightarrow> page \<Rightarrow> page" where
  "step e ClickUploadMode p =
     (if uploadModeBtn e \<and> cameraModeBtn e then switchToUploadMode e p else p)"
| "step e ClickCameraMode p =
     (if uploadModeBtn e \<and> cameraModeBtn e then switchToCameraMode e p else p)"
| "step e ClickStart p =
     (if startButton e \<and> \<not> start_disabled p then startButton_click p else p)"
| "step e GetUserMediaResolved p =
     (if 0 < pending_getUserMedia p then getUserMedia_resolved e p else p)"
| "step e GetUserMediaRejected p =
     (if 0 < pending_getUserMedia p then getUserMedia_rejected p else p)"
| "step e (ClickCapture vw vh) p =
     (if captureButton e \<and> video e \<and> canvas e \<and> \<not> capture_disabled p
      then captureButton_click vw vh p else p)"
| "step e (ToBlobDone uuid) p = toBlob_callback e uuid p"
| "step e Submit p =
     (if cameraForm e \<and> cameraImageInput e then cameraForm_submit p else p)"
| "step e (BlobFetched i) p =
     (if i < length (blob_fetches p) then blob_fetched e i p else p)"
| "step e (BlobFetchFailed i) p =
     (if i < length (blob_fetches p) then blob_fetch_failed i p else p)"
| "step e (PostSettled i r) p =
     (if i < length (in_flight p) then post_settled e i r p else p)"
| "step e (ScriptSettled i loaded) p =
     (if i < length (suspended p) then script_settled e i loaded p else p)"
| "step e BeforeUnload p = beforeunload p"

fun run :: "env \<Rightarrow> event list \<Rightarrow> page \<Rightarrow> page" where
  "run e [] p = p"
| "run e (ev # evs) p = run e evs (step e ev p)"


section \<open>Sample pages\<close>

text \<open>Concrete inputs: a page at \<^verbatim>\<open>https://mushguard.test/\<close> on which every looked-up
  element exists, its state as loaded, and some documents and response bodies. On that
  page an absolute \<^verbatim>\<open>https\<close> URL resolves to itself and any other text to a path of the
  page's origin, the empty text to the page itself.\<close>

definition sample_resolve :: "string \<Rightarrow> string" where
  "sample_resolve v =
     (if take 8 v = ''https://'' then v
      else ''https://mushguard.test'' @ (if take 1 v = ''/'' then v else ''/'' @ v))"

definition all_present :: env where
  "all_present = \<lparr>uploadModeBtn = True, cameraModeBtn = True, uploadMode = True,
     cameraMode = True, video = True, canvas = True, startButton = True, captureButton = True,
     cameraPreview = True, cameraPreviewContainer = True, cameraForm = True,
     cameraImageInput = True, location_href = ''https://mushguard.test/'',
     resolve_url = sample_resolve\<rparr>"

definition loaded_page :: "document \<Rightarrow> page" where
  "loaded_page d = \<lparr>stream = None, live_streams = [], next_stream = 0,
     pending_getUserMedia = 0, video_srcObject = None, start_disabled = False,
     start_innerHTML = start_camera_label, capture_disabled = True, canvas_size = (300, 150),
     pending_toBlob = [], cameraPreview_src = [], previewContainer_display = ''none'',
     imageInput_value = [], uploadBtn_active = True, cameraBtn_active = False,
     uploadMode_display = ''block'', cameraMode_display = ''none'', blob_fetches = [],
     in_flight = [], alerts = [], console = [], doc = d, suspended = []\<rparr>"

text \<open>A home page showing an earlier result whose map is set up by an inline script.\<close>

definition home_doc :: document where
  "home_doc = \<lparr>head = [], body = [Element ''div'' [''input-container''] [] [],
      Element ''div'' [''analysis-result''] []
        [Text ''OLD'', Element ''script'' [] [] [Text ''initMap()'']]]\<rparr>"

text \<open>A home page with the anchor and no result yet, and a page with neither.\<close>

definition fresh_doc :: document where
  "fresh_doc = \<lparr>head = [], body = [Element ''div'' [''input-container''] [] []]\<rparr>"

definition bare_doc :: document where
  "bare_doc = \<lparr>head = [], body = [Element ''p'' [] [] [Text ''hello'']]\<rparr>"

definition leaflet_js :: string where
  "leaflet_js = ''https://unpkg.com/leaflet@1.9.4/dist/leaflet.js''"

text \<open>A response body whose result loads a library and then uses it, and one without a
  result node.\<close>

definition map_result :: node where
  "map_result = Element ''div'' [''analysis-result''] []
     [Text ''EDIBLE'', Element ''script'' [] [(''src'', leaflet_js)] [],
      Element ''script'' [] [] [Text ''L.map()'']]"

definition map_fragment :: document where
  "map_fragment = \<lparr>head = [], body = [map_result]\<rparr>"

text \<open>A result whose scripts are named by a path and by an empty \<^verbatim>\<open>src\<close>.\<close>

definition local_result :: node where
  "local_result = Element ''div'' [''analysis-result''] []
     [Element ''script'' [] [(''src'', ''/static/js/map.js'')] [],
      Element ''script'' [] [(''src'', [])] [Text ''ignored()'']]"

definition no_result_fragment :: document where
  "no_result_fragment = \<lparr>head = [], body = [Element ''p'' [] [] [Text ''try again'']]\<rparr>"

text \<open>The user starts the camera, is granted a stream and captures a frame.\<close>

definition capture_events :: "string \<Rightarrow> event list" where
  "capture_events uuid = [ClickStart, GetUserMediaResolved, ClickCapture 640 480, ToBlobDone uuid]"


definition captured_page :: page where
  "captured_page = run all_present (capture_events ''a'') (loaded_page home_doc)"

text \<open>The captured frame has been submitted and its POST is in flight.\<close>

definition submitted_page :: page where
  "submitted_page = run all_present [Submit, BlobFetched 0] captured_page"

section \<open>Properties\<close>

lemmas sample_defs = all_present_def loaded_page_def home_doc_def fresh_doc_def bare_doc_def
  map_result_def map_fragment_def no_result_fragment_def capture_events_def leaflet_js_def
  sample_resolve_def local_result_def

lemmas handler_defs = switchToUploadMode_def switchToCameraMode_def startButton_click_def
  getUserMedia_resolved_def getUserMedia_rejected_def captureButton_click_def
  toBlob_callback_def cameraForm_submit_def blob_fetched_def blob_fetch_failed_def
  stop_tracks_def remove_nth_def response_failed_def post_settled_def beforeunload_def
  post_request_def

lemmas dom_defs = querySelector_def forest_nodes_def doc_querySelector_def
  doc_querySelectorAll_def querySelectorAll_def patchResult_def doc_replaceWith_def
  doc_insertAfter_def ensureLeafletCSS_def is_stylesheet_link_def loadScript_def
  script_element_def inline_element_def executeScriptsFrom_def script_settled_def
  response_ok_def reset_camera_def csrf_field_def

lemma run_append: "run e (xs @ ys) p = run e ys (run e xs p)"
  by (induction xs arbitrary: p) auto

lemma captured_page_eq:
  "captured_page = (loaded_page home_doc)\<lparr>stream := Some 0, live_streams := [0],
     next_stream := 1, video_srcObject := Some 0, start_disabled := True,
     start_innerHTML := camera_running_label, capture_disabled := False,
     canvas_size := (640, 480), cameraPreview_src := ''blob:a'',
     previewContainer_display := ''block'', imageInput_value := ''blob:a''\<rparr>"
  by (simp add: captured_page_def sample_defs handler_defs Let_def)

lemma submitted_page_eq:
  "submitted_page = captured_page\<lparr>in_flight := [post_request all_present home_doc ''blob:a'']\<rparr>"
  by (simp add: submitted_page_def captured_page_eq all_present_def loaded_page_def
      cameraForm_submit_def blob_fetched_def remove_nth_def Let_def)

subsection \<open>Submitting without a capture\<close>

text \<open>
  C7. A submit while \<^verbatim>\<open>cameraImageInput.value\<close> is empty starts no read of an object URL and
  no request; the handler, where it is registered, only shows the alert
  ``Please capture a photo first''.
\<close>

theorem submit_without_capture:
  assumes "imageInput_value p = []"
  shows "blob_fetches (step e Submit p) = blob_fetches p \<and>
         in_flight (step e Submit p) = in_flight p \<and>
         (cameraForm e \<and> cameraImageInput e \<longrightarrow>
            step e Submit p = p\<lparr>alerts := alerts p @ [''Please capture a photo first'']\<rparr>)"
  using assms by (simp add: cameraForm_submit_def)

theorem submit_without_capture_witness:
  "imageInput_value (loaded_page home_doc) = [] \<and>
   cameraForm all_present \<and> cameraImageInput all_present \<and>
   blob_fetches (step all_present Submit (loaded_page home_doc)) = [] \<and>
   in_flight (step all_present Submit (loaded_page home_doc)) = [] \<and>
   alerts (step all_present Submit (loaded_page home_doc)) = [''Please capture a photo first'']"
proof -
  have h: "imageInput_value (loaded_page home_doc) = []" by (simp add: loaded_page_def)
  have e: "cameraForm all_present \<and> cameraImageInput all_present" by (simp add: all_present_def)
  from submit_without_capture[OF h, of all_present] e
  have "step all_present Submit (loaded_page home_doc) =
          (loaded_page home_doc)\<lparr>alerts := alerts (loaded_page home_doc) @ [''Please capture a photo first'']\<rparr>"
    by blast
  then show ?thesis using h e by (simp add: loaded_page_def)
qed

subsection \<open>Capturing without a stream\<close>

text \<open>
  C8, as the code has it. A click on the capture button while \<^verbatim>\<open>stream\<close> is \<^verbatim>\<open>null\<close> returns
  at once and leaves the whole page state as it was: the canvas is not resized or drawn
  on, no encoding is started, no frame is stored, and no error is raised, shown or logged.
\<close>

theorem capture_without_stream:
  assumes "stream p = None"
  shows "captureButton_click vw vh p = p \<and> step e (ClickCapture vw vh) p = p"
  using assms by (simp add: captureButton_click_def)

theorem capture_without_stream_witness:
  "stream ((loaded_page home_doc)\<lparr>capture_disabled := False\<rparr>) = None \<and>
   step all_present (ClickCapture 640 480) ((loaded_page home_doc)\<lparr>capture_disabled := False\<rparr>) =
     (loaded_page home_doc)\<lparr>capture_disabled := False\<rparr>"
proof -
  have h: "stream ((loaded_page home_doc)\<lparr>capture_disabled := False\<rparr>) = None"
    by (simp add: loaded_page_def)
  from capture_without_stream[OF h, of 640 480 all_present] h show ?thesis by blast
qed

text \<open>The claim as written fails in two places. The return is silent: no alert is shown
  and nothing is logged. And no stream need be live: after \<^verbatim>\<open>beforeunload\<close> has stopped
  the tracks, \<^verbatim>\<open>stream\<close> still names the stopped stream, and a capture stores a frame.\<close>

theorem capture_claim_fails:
  "stream ((loaded_page home_doc)\<lparr>capture_disabled := False\<rparr>) = None \<and>
   alerts (step all_present (ClickCapture 640 480)
             ((loaded_page home_doc)\<lparr>capture_disabled := False\<rparr>)) = [] \<and>
   console (step all_present (ClickCapture 640 480)
             ((loaded_page home_doc)\<lparr>capture_disabled := False\<rparr>)) = [] \<and>
   live_streams (run all_present [ClickStart, GetUserMediaResolved, BeforeUnload]
                   (loaded_page home_doc)) = [] \<and>
   imageInput_value (run all_present [ClickStart, GetUserMediaResolved, BeforeUnload,
                       ClickCapture 640 480, ToBlobDone ''a''] (loaded_page home_doc)) = ''blob:a''"
  by (simp add: all_present_def loaded_page_def handler_defs Let_def)

subsection \<open>Submissions while one is outstanding\<close>

lemma run_submits:
  "cameraForm e \<Longrightarrow> cameraImageInput e \<Longrightarrow> imageInput_value p \<noteq> [] \<Longrightarrow>
   run e (replicate n Submit) p =
     p\<lparr>blob_fetches := blob_fetches p @ replicate n (imageInput_value p)\<rparr>"
proof (induction n arbitrary: p)
  case 0
  then show ?case by simp
next
  case (Suc n)
  let ?p' = "p\<lparr>blob_fetches := blob_fetches p @ [imageInput_value p]\<rparr>"
  have "step e Submit p = ?p'" using Suc.prems by (simp add: cameraForm_submit_def)
  moreover have "run e (replicate n Submit) ?p' =
      ?p'\<lparr>blob_fetches := blob_fetches ?p' @ replicate n (imageInput_value ?p')\<rparr>"
    using Suc.prems by (intro Suc.IH) simp_all
  ultimately show ?case by (simp add: replicate_app_Cons_same)
qed

lemma run_blob_fetched:
  "blob_fetches p = replicate m u \<Longrightarrow> k \<le> m \<Longrightarrow>
   run e (replicate k (BlobFetched 0)) p =
     p\<lparr>blob_fetches := replicate (m - k) u,
       in_flight := in_flight p @ replicate k (post_request e (doc p) u)\<rparr>"
proof (induction k arbitrary: p m)
  case 0
  then show ?case by simp
next
  case (Suc k)
  then obtain m' where m: "m = Suc m'" by (cases m) auto
  let ?p' = "p\<lparr>blob_fetches := replicate m' u,
               in_flight := in_flight p @ [post_request e (doc p) u]\<rparr>"
  have "step e (BlobFetched 0) p = ?p'"
    using Suc.prems m by (simp add: blob_fetched_def remove_nth_def)
  moreover have "run e (replicate k (BlobFetched 0)) ?p' =
     ?p'\<lparr>blob_fetches := replicate (m' - k) u,
       in_flight := in_flight ?p' @ replicate k (post_request e (doc ?p') u)\<rparr>"
    using Suc.prems m by (intro Suc.IH) simp_all
  ultimately show ?case using m by (simp add: replicate_app_Cons_same)
qed

text \<open>
  C1, as the code has it. The submit handler keeps no record of a submission in progress:
  every submit made while a capture is stored starts a request of its own, with no
  rejection and no alert. After \<open>n\<close> submits in a row and the \<open>n\<close> reads of the object URL,
  \<open>n\<close> POST requests are in flight together.
\<close>

theorem every_submit_starts_a_request:
  assumes "cameraForm e" and "cameraImageInput e"
    and "imageInput_value p \<noteq> []" and "blob_fetches p = []"
  shows "run e (replicate n Submit @ replicate n (BlobFetched 0)) p =
     p\<lparr>in_flight :=
         in_flight p @ replicate n (post_request e (doc p) (imageInput_value p))\<rparr>"
proof -
  let ?p1 = "p\<lparr>blob_fetches := blob_fetches p @ replicate n (imageInput_value p)\<rparr>"
  have 1: "run e (replicate n Submit) p = ?p1" using assms(1-3) by (rule run_submits)
  have "blob_fetches ?p1 = replicate n (imageInput_value p)" using assms(4) by simp
  from run_blob_fetched[OF this order_refl, of e]
  have "run e (replicate n (BlobFetched 0)) ?p1 =
     ?p1\<lparr>blob_fetches := replicate (n - n) (imageInput_value p),
       in_flight := in_flight ?p1 @ replicate n (post_request e (doc ?p1) (imageInput_value p))\<rparr>" .
  with 1 assms(4) show ?thesis by (simp add: run_append)
qed

theorem every_submit_starts_a_request_witness:
  "cameraForm all_present \<and> cameraImageInput all_present \<and>
   imageInput_value captured_page \<noteq> [] \<and> blob_fetches captured_page = [] \<and>
   in_flight (run all_present (replicate 3 Submit @ replicate 3 (BlobFetched 0)) captured_page) =
     replicate 3 (post_request all_present home_doc ''blob:a'') \<and>
   alerts (run all_present (replicate 3 Submit @ replicate 3 (BlobFetched 0)) captured_page) = []"
proof -
  have e: "cameraForm all_present" "cameraImageInput all_present" by (simp_all add: all_present_def)
  have v: "imageInput_value captured_page \<noteq> []" by (simp add: captured_page_eq)
  have b: "blob_fetches captured_page = []" by (simp add: captured_page_eq loaded_page_def)
  from every_submit_starts_a_request[OF e v b, of 3] e v b show ?thesis
    by (simp add: captured_page_eq loaded_page_def)
qed

text \<open>The claim as written fails: a second submit made while the first POST is in flight
  is not rejected; afterwards two requests are in flight and no alert was shown.\<close>

theorem second_submit_not_rejected:
  "length (in_flight (run all_present [Submit, BlobFetched 0, Submit, BlobFetched 0] captured_page)) = 2 \<and>
   alerts (run all_present [Submit, BlobFetched 0, Submit, BlobFetched 0] captured_page) = []"
  by (simp add: captured_page_eq all_present_def loaded_page_def cameraForm_submit_def
      blob_fetched_def remove_nth_def Let_def)

subsection \<open>A failed submission\<close>

text \<open>
  C4, as the code has it. When the POST settles with a status outside 2xx or is rejected,
  the handler logs the error and shows the alert ``Error submitting photo. Please try
  again.''; nothing else changes: the document, the stream, the stored capture and the
  controls stay as they were, so the camera is not reset.
\<close>

theorem failed_submission_only_alerts:
  assumes "i < length (in_flight p)" and "r = NotOk \<or> r = Rejected"
  shows "step e (PostSettled i r) p =
     p\<lparr>in_flight := remove_nth i (in_flight p), console := console p @ [''Error:''],
       alerts := alerts p @ [''Error submitting photo. Please try again.'']\<rparr>"
  using assms by (auto simp: post_settled_def response_failed_def)

theorem failed_submission_only_alerts_witness:
  "0 < length (in_flight submitted_page) \<and>
   alerts (step all_present (PostSettled 0 NotOk) submitted_page) =
     [''Error submitting photo. Please try again.''] \<and>
   doc (step all_present (PostSettled 0 NotOk) submitted_page) = home_doc \<and>
   stream (step all_present (PostSettled 0 NotOk) submitted_page) = Some 0 \<and>
   live_streams (step all_present (PostSettled 0 NotOk) submitted_page) = [0] \<and>
   imageInput_value (step all_present (PostSettled 0 NotOk) submitted_page) = ''blob:a''"
proof -
  have h: "0 < length (in_flight submitted_page)" by (simp add: submitted_page_eq)
  from failed_submission_only_alerts[OF h, of NotOk all_present] h show ?thesis
    by (simp add: submitted_page_eq captured_page_eq loaded_page_def)
qed

text \<open>The claim as written fails: after a response with status 500 the stream is still
  held and live, and the capture is still stored.\<close>

theorem failed_submission_keeps_camera:
  "stream (step all_present (PostSettled 0 NotOk) submitted_page) \<noteq> None \<and>
   live_streams (step all_present (PostSettled 0 NotOk) submitted_page) = [0] \<and>
   imageInput_value (step all_present (PostSettled 0 NotOk) submitted_page) \<noteq> []"
  by (simp add: submitted_page_eq captured_page_eq loaded_page_def post_settled_def
      response_failed_def)

subsection \<open>Starting the camera twice\<close>

text \<open>
  C5. The start button is disabled only after \<^verbatim>\<open>getUserMedia\<close> has resolved, and the handler
  does not look at \<^verbatim>\<open>stream\<close>. Two clicks before the first resolution acquire two streams;
  \<^verbatim>\<open>stream\<close> names the second, and the first stays live even after switching to upload
  mode stops the camera.
\<close>

theorem start_twice_holds_two_streams:
  "live_streams (run all_present [ClickStart, ClickStart, GetUserMediaResolved,
      GetUserMediaResolved] (loaded_page home_doc)) = [0, 1] \<and>
   stream (run all_present [ClickStart, ClickStart, GetUserMediaResolved,
      GetUserMediaResolved] (loaded_page home_doc)) = Some 1 \<and>
   live_streams (run all_present [ClickStart, ClickStart, GetUserMediaResolved,
      GetUserMediaResolved, ClickUploadMode] (loaded_page home_doc)) = [0]"
  by (simp add: all_present_def loaded_page_def startButton_click_def getUserMedia_resolved_def
      switchToUploadMode_def stop_tracks_def Let_def)

subsection \<open>Switching modes\<close>

text \<open>
  C9. Switching to upload mode stops the stream \<^verbatim>\<open>stream\<close> names and clears the variable,
  changes no stream when none is held, disables the capture button, and doing it twice is
  doing it once. Switching to camera mode changes only the mode buttons and the two
  panels: it starts no \<^verbatim>\<open>getUserMedia\<close> call and acquires no stream.
\<close>

theorem mode_switching:
  assumes "uploadModeBtn e" and "cameraModeBtn e"
  shows "stream (step e ClickUploadMode p) = None \<and>
     (\<forall>h. stream p = Some h \<longrightarrow> h \<notin> set (live_streams (step e ClickUploadMode p))) \<and>
     (stream p = None \<longrightarrow> live_streams (step e ClickUploadMode p) = live_streams p) \<and>
     (captureButton e \<longrightarrow> capture_disabled (step e ClickUploadMode p)) \<and>
     step e ClickUploadMode (step e ClickUploadMode p) = step e ClickUploadMode p \<and>
     step e ClickCameraMode p =
       p\<lparr>cameraBtn_active := True, uploadBtn_active := False,
         cameraMode_display := (if cameraMode e then ''block'' else cameraMode_display p),
         uploadMode_display := (if uploadMode e then ''none'' else uploadMode_display p)\<rparr>"
  using assms
  by (cases "stream p")
    (simp_all add: switchToUploadMode_def switchToCameraMode_def stop_tracks_def Let_def)

theorem mode_switching_witness:
  "uploadModeBtn all_present \<and> cameraModeBtn all_present \<and> captureButton all_present \<and>
   stream captured_page = Some 0 \<and>
   stream (step all_present ClickUploadMode captured_page) = None \<and>
   0 \<notin> set (live_streams (step all_present ClickUploadMode captured_page)) \<and>
   capture_disabled (step all_present ClickUploadMode captured_page) \<and>
   stream (loaded_page home_doc) = None \<and>
   live_streams (step all_present ClickUploadMode (loaded_page home_doc)) = [] \<and>
   stream (step all_present ClickCameraMode captured_page) = Some 0 \<and>
   live_streams (step all_present ClickCameraMode captured_page) = [0] \<and>
   pending_getUserMedia (step all_present ClickCameraMode captured_page) = 0 \<and>
   cameraMode_display (step all_present ClickCameraMode captured_page) = ''block''"
proof -
  have e: "uploadModeBtn all_present" "cameraModeBtn all_present" "captureButton all_present"
    "cameraMode all_present"
    by (simp_all add: all_present_def)
  have s: "stream captured_page = Some 0" "stream (loaded_page home_doc) = None"
    by (simp_all add: captured_page_eq loaded_page_def)
  have l: "live_streams (loaded_page home_doc) = []" by (simp add: loaded_page_def)
  note a = mode_switching[OF e(1,2), of captured_page]
  note b = mode_switching[OF e(1,2), of "loaded_page home_doc"]
  have 1: "stream (step all_present ClickUploadMode captured_page) = None" using a by blast
  have 2: "0 \<notin> set (live_streams (step all_present ClickUploadMode captured_page))"
    using a s(1) by blast
  have 3: "capture_disabled (step all_present ClickUploadMode captured_page)"
    using a e(3) by blast
  have 4: "live_streams (step all_present ClickUploadMode (loaded_page home_doc)) = []"
    using b s(2) l by simp
  have 5: "step all_present ClickCameraMode captured_page =
       captured_page\<lparr>cameraBtn_active := True, uploadBtn_active := False,
         cameraMode_display := (if cameraMode all_present then ''block'' else cameraMode_display captured_page),
         uploadMode_display := (if uploadMode all_present then ''none'' else uploadMode_display captured_page)\<rparr>"
    using a by blast
  have 6: "stream (step all_present ClickCameraMode captured_page) = Some 0"
    "live_streams (step all_present ClickCameraMode captured_page) = [0]"
    "pending_getUserMedia (step all_present ClickCameraMode captured_page) = 0"
    "cameraMode_display (step all_present ClickCameraMode captured_page) = ''block''"
    unfolding 5 using e(4) by (simp_all add: captured_page_eq loaded_page_def)
  from e s 1 2 3 4 6 show ?thesis by simp
qed

subsection \<open>The reset after a successful submission\<close>

lemma executeScriptsFrom_camera:
  "stream (executeScriptsFrom e c p) = stream p"
  "live_streams (executeScriptsFrom e c p) = live_streams p"
  "previewContainer_display (executeScriptsFrom e c p) = previewContainer_display p"
  "start_disabled (executeScriptsFrom e c p) = start_disabled p"
  "capture_disabled (executeScriptsFrom e c p) = capture_disabled p"
  by (simp_all add: executeScriptsFrom_def Let_def split: option.splits prod.splits)

lemma reset_camera_effect:
  "imageInput_value (reset_camera e p) = []"
  "stream (reset_camera e p) = None"
  "stream p = Some h \<Longrightarrow> h \<notin> set (live_streams (reset_camera e p))"
  "cameraPreviewContainer e \<Longrightarrow> previewContainer_display (reset_camera e p) = ''none''"
  "startButton e \<Longrightarrow>
     \<not> start_disabled (reset_camera e p) \<and> start_innerHTML (reset_camera e p) = start_camera_label"
  "captureButton e \<Longrightarrow> capture_disabled (reset_camera e p)"
  by (cases "stream p"; simp add: reset_camera_def stop_tracks_def Let_def)+

text \<open>
  C10. Whatever body a 2xx response carries, with or without a result node, the handler
  then hides the capture preview, clears the stored capture, stops the stream and clears
  \<^verbatim>\<open>stream\<close>, enables the start button with its ``Start Camera'' label and disables the
  capture button.
\<close>

theorem success_resets_capture_state:
  assumes "i < length (in_flight p)"
  shows "(cameraPreviewContainer e \<longrightarrow>
            previewContainer_display (step e (PostSettled i (Ok parsed)) p) = ''none'') \<and>
     imageInput_value (step e (PostSettled i (Ok parsed)) p) = [] \<and>
     stream (step e (PostSettled i (Ok parsed)) p) = None \<and>
     (\<forall>h. stream p = Some h \<longrightarrow> h \<notin> set (live_streams (step e (PostSettled i (Ok parsed)) p))) \<and>
     (startButton e \<longrightarrow> \<not> start_disabled (step e (PostSettled i (Ok parsed)) p) \<and>
        start_innerHTML (step e (PostSettled i (Ok parsed)) p) = start_camera_label) \<and>
     (captureButton e \<longrightarrow> capture_disabled (step e (PostSettled i (Ok parsed)) p))"
  using assms
  by (simp add: post_settled_def response_ok_def Let_def reset_camera_effect
      executeScriptsFrom_camera)

theorem success_resets_capture_state_witness:
  "0 < length (in_flight submitted_page) \<and> stream submitted_page = Some 0 \<and>
   doc_querySelector (has_class ''analysis-result'') no_result_fragment = None \<and>
   previewContainer_display (step all_present (PostSettled 0 (Ok no_result_fragment)) submitted_page) = ''none'' \<and>
   imageInput_value (step all_present (PostSettled 0 (Ok no_result_fragment)) submitted_page) = [] \<and>
   stream (step all_present (PostSettled 0 (Ok no_result_fragment)) submitted_page) = None \<and>
   0 \<notin> set (live_streams (step all_present (PostSettled 0 (Ok no_result_fragment)) submitted_page)) \<and>
   \<not> start_disabled (step all_present (PostSettled 0 (Ok no_result_fragment)) submitted_page) \<and>
   capture_disabled (step all_present (PostSettled 0 (Ok no_result_fragment)) submitted_page)"
proof -
  have h: "0 < length (in_flight submitted_page)" by (simp add: submitted_page_eq)
  have s: "stream submitted_page = Some 0" by (simp add: submitted_page_eq captured_page_eq)
  have e: "cameraPreviewContainer all_present" "startButton all_present" "captureButton all_present"
    by (simp_all add: all_present_def)
  have n: "doc_querySelector (has_class ''analysis-result'') no_result_fragment = None"
    by (simp add: doc_querySelector_def querySelector_def forest_nodes_def no_result_fragment_def)
  from success_resets_capture_state[OF h, of all_present no_result_fragment] h s e n
  show ?thesis by blast
qed

subsection \<open>Selecting, replacing and inserting in the tree\<close>

lemma find_append_case:
  "find p (xs @ ys) = (case find p xs of None \<Rightarrow> find p ys | Some x \<Rightarrow> Some x)"
  by (induction xs) auto

lemma querySelector_Nil [simp]: "querySelector p [] = None"
  by (simp add: querySelector_def forest_nodes_def)

lemma querySelector_Text [simp]:
  "querySelector p (Text s # ns) = (if p (Text s) then Some (Text s) else querySelector p ns)"
  by (simp add: querySelector_def forest_nodes_def)

lemma querySelector_Element [simp]:
  "querySelector p (Element t c as ks # ns) =
     (if p (Element t c as ks) then Some (Element t c as ks)
      else case querySelector p ks of None \<Rightarrow> querySelector p ns | Some x \<Rightarrow> Some x)"
  by (simp add: querySelector_def forest_nodes_def find_append_case split: option.splits)

lemma querySelector_append:
  "querySelector p (xs @ ys) =
     (case querySelector p xs of None \<Rightarrow> querySelector p ys | Some x \<Rightarrow> Some x)"
  by (simp add: querySelector_def forest_nodes_def find_append_case split: option.splits)

lemma querySelector_Some_matches: "querySelector p ks = Some n \<Longrightarrow> p n"
  by (auto simp: querySelector_def find_Some_iff)

text \<open>After the replacement the first node with the class is the new node.\<close>

lemma querySelector_replaceWith:
  "querySelector (has_class c) ks \<noteq> None \<Longrightarrow> has_class c new \<Longrightarrow>
   querySelector (has_class c) (replaceWith (has_class c) new ks) = Some new"
proof (induction "has_class c" new ks rule: replaceWith.induct)
  case (1 new)
  then show ?case by simp
next
  case (2 new s ns)
  then show ?case by (cases new) auto
next
  case (3 new t cs as ks ns)
  then show ?case by (cases new) (auto split: option.splits)
qed

lemma querySelector_insertAfter:
  "querySelector (has_class c) ks = None \<Longrightarrow> has_class c new \<Longrightarrow>
   querySelector (has_class a) ks \<noteq> None \<Longrightarrow>
   querySelector (has_class c) (insertAfter (has_class a) new ks) = Some new"
proof (induction "has_class a" new ks rule: insertAfter.induct)
  case (1 new)
  then show ?case by simp
next
  case (2 new s ns)
  then show ?case by (cases new) auto
next
  case (3 new t cs as ks ns)
  then show ?case by (cases new) (auto split: option.splits if_splits)
qed

text \<open>Where the first match is a child of the root of the forest, the nodes before and
  after it stay as they are.\<close>

lemma replaceWith_top_level:
  "querySelector p pre = None \<Longrightarrow> p cur \<Longrightarrow>
   replaceWith p new (pre @ cur # post) = pre @ new # post"
proof (induction pre)
  case Nil
  then show ?case by (cases cur) auto
next
  case (Cons n pre)
  then show ?case by (cases n) (auto split: option.splits if_splits)
qed

lemma insertAfter_top_level:
  "querySelector p pre = None \<Longrightarrow> p anchor \<Longrightarrow>
   insertAfter p new (pre @ anchor # post) = pre @ anchor # new # post"
proof (induction pre)
  case Nil
  then show ?case by (cases anchor) auto
next
  case (Cons n pre)
  then show ?case by (cases n) (auto split: option.splits if_splits)
qed

lemma doc_querySelector_replaceWith:
  assumes "doc_querySelector (has_class c) d \<noteq> None" and "has_class c new"
  shows "doc_querySelector (has_class c) (doc_replaceWith (has_class c) new d) = Some new"
proof (cases "querySelector (has_class c) (head d)")
  case None
  with assms(1) have "querySelector (has_class c) (body d) \<noteq> None"
    by (simp add: doc_querySelector_def querySelector_append)
  from querySelector_replaceWith[OF this assms(2)] None show ?thesis
    by (simp add: doc_querySelector_def doc_replaceWith_def querySelector_append)
next
  case (Some n)
  then have "querySelector (has_class c) (head d) \<noteq> None" by simp
  from querySelector_replaceWith[OF this assms(2)] Some show ?thesis
    by (simp add: doc_querySelector_def doc_replaceWith_def querySelector_append)
qed

lemma doc_querySelector_insertAfter:
  assumes "doc_querySelector (has_class c) d = None" and "has_class c new"
    and "doc_querySelector (has_class a) d \<noteq> None"
  shows "doc_querySelector (has_class c) (doc_insertAfter (has_class a) new d) = Some new"
proof -
  from assms(1) have none: "querySelector (has_class c) (head d) = None"
    "querySelector (has_class c) (body d) = None"
    by (simp_all add: doc_querySelector_def querySelector_append split: option.splits)
  show ?thesis
  proof (cases "querySelector (has_class a) (head d)")
    case None
    with assms(3) have "querySelector (has_class a) (body d) \<noteq> None"
      by (simp add: doc_querySelector_def querySelector_append)
    from querySelector_insertAfter[OF none(2) assms(2) this] None none(1) show ?thesis
      by (simp add: doc_querySelector_def doc_insertAfter_def querySelector_append)
  next
    case (Some n)
    then have "querySelector (has_class a) (head d) \<noteq> None" by simp
    from querySelector_insertAfter[OF none(1) assms(2) this] Some show ?thesis
      by (simp add: doc_querySelector_def doc_insertAfter_def querySelector_append)
  qed
qed

subsection \<open>The result patch\<close>

text \<open>
  C6, as the code has it. Let \<open>new\<close> be the first node with class \<^verbatim>\<open>analysis-result\<close> of the
  parsed response. If the live document has such a node, its first one is replaced by
  \<open>new\<close>; if it has none and has a node with class \<^verbatim>\<open>input-container\<close>, \<open>new\<close> is inserted
  right after the first such node; in both cases \<open>new\<close> is then the result node the live
  document shows. If the live document has neither, or the parsed response has no result
  node, the replace-or-insert step leaves the live document as it is.
\<close>

theorem patch_result_cases:
  "(doc_querySelector (has_class ''analysis-result'') parsed = Some new \<and>
    doc_querySelector (has_class ''analysis-result'') d \<noteq> None \<longrightarrow>
      patchResult parsed d = doc_replaceWith (has_class ''analysis-result'') new d \<and>
      doc_querySelector (has_class ''analysis-result'') (patchResult parsed d) = Some new) \<and>
   (doc_querySelector (has_class ''analysis-result'') parsed = Some new \<and>
    doc_querySelector (has_class ''analysis-result'') d = None \<and>
    doc_querySelector (has_class ''input-container'') d \<noteq> None \<longrightarrow>
      patchResult parsed d = doc_insertAfter (has_class ''input-container'') new d \<and>
      doc_querySelector (has_class ''analysis-result'') (patchResult parsed d) = Some new) \<and>
   (doc_querySelector (has_class ''analysis-result'') d = None \<and>
    doc_querySelector (has_class ''input-container'') d = None \<longrightarrow>
      patchResult parsed d = d) \<and>
   (doc_querySelector (has_class ''analysis-result'') parsed = None \<longrightarrow>
      patchResult parsed d = d)"
proof (intro conjI impI)
  assume a: "doc_querySelector (has_class ''analysis-result'') parsed = Some new \<and>
    doc_querySelector (has_class ''analysis-result'') d \<noteq> None"
  then show r: "patchResult parsed d = doc_replaceWith (has_class ''analysis-result'') new d"
    by (simp add: patchResult_def)
  from a have "has_class ''analysis-result'' new"
    by (auto simp: doc_querySelector_def dest: querySelector_Some_matches)
  with a show "doc_querySelector (has_class ''analysis-result'') (patchResult parsed d) = Some new"
    unfolding r by (intro doc_querySelector_replaceWith) simp_all
next
  assume a: "doc_querySelector (has_class ''analysis-result'') parsed = Some new \<and>
    doc_querySelector (has_class ''analysis-result'') d = None \<and>
    doc_querySelector (has_class ''input-container'') d \<noteq> None"
  then show r: "patchResult parsed d = doc_insertAfter (has_class ''input-container'') new d"
    by (simp add: patchResult_def)
  from a have "has_class ''analysis-result'' new"
    by (auto simp: doc_querySelector_def dest: querySelector_Some_matches)
  with a show "doc_querySelector (has_class ''analysis-result'') (patchResult parsed d) = Some new"
    unfolding r by (intro doc_querySelector_insertAfter) simp_all
next
  assume "doc_querySelector (has_class ''analysis-result'') d = None \<and>
    doc_querySelector (has_class ''input-container'') d = None"
  then show "patchResult parsed d = d"
    by (simp add: patchResult_def split: option.splits)
next
  assume "doc_querySelector (has_class ''analysis-result'') parsed = None"
  then show "patchResult parsed d = d" by (simp add: patchResult_def)
qed

theorem patch_result_cases_witness:
  "doc_querySelector (has_class ''analysis-result'') map_fragment = Some map_result \<and>
   doc_querySelector (has_class ''analysis-result'') home_doc \<noteq> None \<and>
   patchResult map_fragment home_doc =
     \<lparr>head = [], body = [Element ''div'' [''input-container''] [] [], map_result]\<rparr> \<and>
   doc_querySelector (has_class ''analysis-result'') (patchResult map_fragment home_doc) =
     Some map_result \<and>
   doc_querySelector (has_class ''analysis-result'') fresh_doc = None \<and>
   doc_querySelector (has_class ''input-container'') fresh_doc \<noteq> None \<and>
   patchResult map_fragment fresh_doc =
     \<lparr>head = [], body = [Element ''div'' [''input-container''] [] [], map_result]\<rparr> \<and>
   doc_querySelector (has_class ''analysis-result'') (patchResult map_fragment fresh_doc) =
     Some map_result \<and>
   doc_querySelector (has_class ''analysis-result'') bare_doc = None \<and>
   doc_querySelector (has_class ''input-container'') bare_doc = None \<and>
   patchResult map_fragment bare_doc = bare_doc \<and>
   doc_querySelector (has_class ''analysis-result'') no_result_fragment = None \<and>
   patchResult no_result_fragment home_doc = home_doc"
proof -
  have f: "doc_querySelector (has_class ''analysis-result'') map_fragment = Some map_result"
    by (simp add: doc_querySelector_def map_fragment_def map_result_def)
  have h: "doc_querySelector (has_class ''analysis-result'') home_doc \<noteq> None"
    by (simp add: doc_querySelector_def home_doc_def)
  have r: "doc_querySelector (has_class ''analysis-result'') fresh_doc = None"
    "doc_querySelector (has_class ''input-container'') fresh_doc \<noteq> None"
    by (simp_all add: doc_querySelector_def fresh_doc_def)
  have b: "doc_querySelector (has_class ''analysis-result'') bare_doc = None"
    "doc_querySelector (has_class ''input-container'') bare_doc = None"
    by (simp_all add: doc_querySelector_def bare_doc_def)
  have n: "doc_querySelector (has_class ''analysis-result'') no_result_fragment = None"
    by (simp add: doc_querySelector_def no_result_fragment_def)
  have 1: "patchResult map_fragment home_doc =
        doc_replaceWith (has_class ''analysis-result'') map_result home_doc"
    "doc_querySelector (has_class ''analysis-result'') (patchResult map_fragment home_doc) =
        Some map_result"
    using patch_result_cases[of map_fragment map_result home_doc] f h by blast+
  have 2: "patchResult map_fragment fresh_doc =
        doc_insertAfter (has_class ''input-container'') map_result fresh_doc"
    "doc_querySelector (has_class ''analysis-result'') (patchResult map_fragment fresh_doc) =
        Some map_result"
    using patch_result_cases[of map_fragment map_result fresh_doc] f r by blast+
  have 3: "patchResult map_fragment bare_doc = bare_doc"
    using patch_result_cases[of map_fragment map_result bare_doc] b by blast
  have 4: "patchResult no_result_fragment home_doc = home_doc"
    using patch_result_cases[of no_result_fragment map_result home_doc] n by blast
  have 5: "doc_replaceWith (has_class ''analysis-result'') map_result home_doc =
      \<lparr>head = [], body = [Element ''div'' [''input-container''] [] [], map_result]\<rparr>"
    by (simp add: doc_replaceWith_def home_doc_def)
  have 6: "doc_insertAfter (has_class ''input-container'') map_result fresh_doc =
      \<lparr>head = [], body = [Element ''div'' [''input-container''] [] [], map_result]\<rparr>"
    by (simp add: doc_insertAfter_def fresh_doc_def)
  from f h r b n 1 2 3 4 5 6 show ?thesis by simp
qed

text \<open>The claim as written fails in two places. On a page with neither a result node nor
  the anchor the new node is not inserted. And when the response has no result node,
  handling the response still changes the live document.\<close>

theorem patch_claim_fails:
  "doc_querySelector (has_class ''analysis-result'') map_fragment = Some map_result \<and>
   doc_querySelector (has_class ''analysis-result'') (patchResult map_fragment bare_doc) = None \<and>
   doc_querySelector (has_class ''analysis-result'') no_result_fragment = None \<and>
   doc (step all_present (PostSettled 0 (Ok no_result_fragment)) submitted_page) \<noteq>
     doc submitted_page"
  by (simp add: submitted_page_eq captured_page_eq sample_defs post_settled_def remove_nth_def
      dom_defs stop_tracks_def Let_def del: querySelector_Nil querySelector_Text querySelector_Element)

subsection \<open>Activating the scripts of one patch\<close>

text \<open>One run of the loop either visits every declaration, none of them external, or
  stops at the first external one.\<close>

lemma scriptLoop_char:
  "(filter (external rs) scs = [] \<and>
      scriptLoop rs scs d = (d\<lparr>body := body d @ map (activated rs) scs\<rparr>, None)) \<or>
   (\<exists>k<length scs. external rs (scs ! k) \<and> filter (external rs) (take k scs) = [] \<and>
      scriptLoop rs scs d =
        (d\<lparr>body := body d @ map (activated rs) (take (Suc k) scs)\<rparr>,
         Some (reflected_url rs ''src'' (scs ! k), drop (Suc k) scs)))"
proof (induction scs arbitrary: d)
  case Nil
  then show ?case by simp
next
  case (Cons sc rest)
  show ?case
  proof (cases "external rs sc")
    case True
    then have "scriptLoop rs (sc # rest) d =
        (d\<lparr>body := body d @ map (activated rs) (take (Suc 0) (sc # rest))\<rparr>,
         Some (reflected_url rs ''src'' ((sc # rest) ! 0), drop (Suc 0) (sc # rest)))"
      by (simp add: external_def activated_def loadScript_def)
    with True show ?thesis by (intro disjI2 exI[of _ 0]) simp
  next
    case False
    let ?d = "d\<lparr>body := body d @ [inline_element sc]\<rparr>"
    from False have loop: "scriptLoop rs (sc # rest) d = scriptLoop rs rest ?d"
      by (simp add: external_def)
    from False have act: "activated rs sc = inline_element sc"
      by (simp add: activated_def)
    from Cons.IH[of ?d] show ?thesis
    proof (elim disjE conjE exE)
      assume "filter (external rs) rest = []"
        and "scriptLoop rs rest ?d = (?d\<lparr>body := body ?d @ map (activated rs) rest\<rparr>, None)"
      with False loop act show ?thesis by simp
    next
      fix k
      assume k: "k < length rest" "external rs (rest ! k)"
          "filter (external rs) (take k rest) = []"
        and "scriptLoop rs rest ?d =
          (?d\<lparr>body := body ?d @ map (activated rs) (take (Suc k) rest)\<rparr>,
           Some (reflected_url rs ''src'' (rest ! k), drop (Suc k) rest))"
      with False loop act show ?thesis
        by (intro disjI2 exI[of _ "Suc k"]) simp
    qed
  qed
qed

lemma filter_take_le:
  assumes "j \<le> k"
  shows "length (filter P (take j xs)) \<le> length (filter P (take k xs))"
proof -
  have "take k xs = take j xs @ take (k - j) (drop j xs)"
    using assms by (metis le_add_diff_inverse take_add)
  then show ?thesis by simp
qed

lemma filter_take_le_all: "length (filter P (take j xs)) \<le> length (filter P xs)"
proof -
  have "filter P xs = filter P (take j xs) @ filter P (drop j xs)"
    by (metis append_take_drop_id filter_append)
  then show ?thesis by simp
qed

lemma script_settled_done:
  assumes "suspended q = [(src, rest)]"
    and "scriptLoop (resolve_url e) rest (doc q) = (d', None)"
  shows "doc (script_settled e 0 b q) = d'" and "suspended (script_settled e 0 b q) = []"
  using assms by (simp_all add: script_settled_def remove_nth_def)

lemma script_settled_susp:
  assumes "suspended q = [(src, rest)]"
    and "scriptLoop (resolve_url e) rest (doc q) = (d', Some w)"
  shows "doc (script_settled e 0 b q) = d'" and "suspended (script_settled e 0 b q) = [w]"
  using assms by (simp_all add: script_settled_def)

lemma executeScriptsFrom_loop:
  assumes "scriptLoop (resolve_url e) (filter (has_tag ''script'') (descendants c))
             (ensureLeafletCSS (resolve_url e) (doc p)) = (d2, st)"
  shows "executeScriptsFrom e (Some c) p =
     p\<lparr>doc := d2, suspended := suspended p @ (case st of None \<Rightarrow> [] | Some w \<Rightarrow> [w])\<rparr>"
  using assms by (simp add: executeScriptsFrom_def Let_def)

lemma ensureLeafletCSS_body: "body (ensureLeafletCSS rs d) = body d"
  by (simp add: ensureLeafletCSS_def Let_def)

text \<open>
  Where one patch stands after the settlements \<open>os\<close> of its loads, when no other run is
  suspended: it has visited the first \<open>k\<close> declarations, and either it waits for the load
  of the last of them, which is the external declaration number \<open>length os + 1\<close>, or it has
  visited them all.
\<close>

lemma executeScripts_run:
  assumes idle: "suspended p = []"
    and scs: "scs = filter (has_tag ''script'') (descendants c)"
    and rs: "rs = resolve_url e"
  shows "\<exists>k\<le>length scs.
     body (doc (run e (map (ScriptSettled 0) os) (executeScriptsFrom e (Some c) p))) =
       body (doc p) @ map (activated rs) (take k scs) \<and>
     ((0 < k \<and> external rs (scs ! (k - 1)) \<and>
       length (filter (external rs) (take k scs)) = Suc (length os) \<and>
       suspended (run e (map (ScriptSettled 0) os) (executeScriptsFrom e (Some c) p)) =
         [(reflected_url rs ''src'' (scs ! (k - 1)), drop k scs)]) \<or>
      (k = length scs \<and> length (filter (external rs) scs) \<le> length os \<and>
       suspended (run e (map (ScriptSettled 0) os) (executeScriptsFrom e (Some c) p)) = []))"
proof (induction os rule: rev_induct)
  case Nil
  let ?d1 = "ensureLeafletCSS rs (doc p)"
  let ?q = "executeScriptsFrom e (Some c) p"
  have b1: "body ?d1 = body (doc p)" by (rule ensureLeafletCSS_body)
  from scriptLoop_char[of rs scs ?d1] show ?case
  proof (elim disjE conjE exE)
    assume none: "filter (external rs) scs = []"
      and loop: "scriptLoop rs scs ?d1 = (?d1\<lparr>body := body ?d1 @ map (activated rs) scs\<rparr>, None)"
    from executeScriptsFrom_loop[OF loop[unfolded scs rs]] idle
    have "doc ?q = ?d1\<lparr>body := body ?d1 @ map (activated rs) scs\<rparr>" "suspended ?q = []"
      by (simp_all add: scs rs)
    with none b1 show ?thesis by (intro exI[of _ "length scs"]) simp
  next
    fix k1
    assume k1: "k1 < length scs" "external rs (scs ! k1)"
        "filter (external rs) (take k1 scs) = []"
      and loop: "scriptLoop rs scs ?d1 =
        (?d1\<lparr>body := body ?d1 @ map (activated rs) (take (Suc k1) scs)\<rparr>,
         Some (reflected_url rs ''src'' (scs ! k1), drop (Suc k1) scs))"
    from executeScriptsFrom_loop[OF loop[unfolded scs rs]] idle
    have "doc ?q = ?d1\<lparr>body := body ?d1 @ map (activated rs) (take (Suc k1) scs)\<rparr>"
      and "suspended ?q = [(reflected_url rs ''src'' (scs ! k1), drop (Suc k1) scs)]"
      by (simp_all add: scs rs)
    moreover have "length (filter (external rs) (take (Suc k1) scs)) = Suc 0"
      using k1 by (simp add: take_Suc_conv_app_nth)
    ultimately show ?thesis using k1(1,2) b1 by (intro exI[of _ "Suc k1"]) simp
  qed
next
  case (snoc b os)
  let ?q = "run e (map (ScriptSettled 0) os) (executeScriptsFrom e (Some c) p)"
  let ?q' = "run e (map (ScriptSettled 0) (os @ [b])) (executeScriptsFrom e (Some c) p)"
  have step: "?q' = step e (ScriptSettled 0 b) ?q" by (simp add: run_append)
  from snoc.IH obtain k where k: "k \<le> length scs"
    and body: "body (doc ?q) = body (doc p) @ map (activated rs) (take k scs)"
    and st: "(0 < k \<and> external rs (scs ! (k - 1)) \<and>
               length (filter (external rs) (take k scs)) = Suc (length os) \<and>
               suspended ?q = [(reflected_url rs ''src'' (scs ! (k - 1)), drop k scs)]) \<or>
             (k = length scs \<and> length (filter (external rs) scs) \<le> length os \<and>
               suspended ?q = [])"
    by blast
  from st show ?case
  proof (elim disjE conjE)
    assume fin: "k = length scs" "length (filter (external rs) scs) \<le> length os"
      "suspended ?q = []"
    then have "?q' = ?q" using step by simp
    with fin body show ?thesis by (intro exI[of _ "length scs"]) simp
  next
    assume w: "0 < k" "external rs (scs ! (k - 1))"
      "length (filter (external rs) (take k scs)) = Suc (length os)"
      "suspended ?q = [(reflected_url rs ''src'' (scs ! (k - 1)), drop k scs)]"
    let ?rest = "drop k scs"
    have q': "?q' = script_settled e 0 b ?q" using step w(4) by simp
    from scriptLoop_char[of rs ?rest "doc ?q"] show ?thesis
    proof (elim disjE conjE exE)
      assume none: "filter (external rs) ?rest = []"
        and loop: "scriptLoop rs ?rest (doc ?q) =
          ((doc ?q)\<lparr>body := body (doc ?q) @ map (activated rs) ?rest\<rparr>, None)"
      from script_settled_done[OF w(4) loop[unfolded rs], of b]
      have d: "doc ?q' = (doc ?q)\<lparr>body := body (doc ?q) @ map (activated rs) ?rest\<rparr>"
        and s: "suspended ?q' = []" unfolding q' by (simp_all add: rs)
      have "map (activated rs) (take k scs) @ map (activated rs) ?rest = map (activated rs) scs"
        by (simp only: map_append[symmetric] append_take_drop_id)
      then have b': "body (doc ?q') = body (doc p) @ map (activated rs) (take (length scs) scs)"
        using d body by simp
      have "filter (external rs) scs =
          filter (external rs) (take k scs) @ filter (external rs) ?rest"
        by (metis append_take_drop_id filter_append)
      then have "length (filter (external rs) scs) \<le> length (os @ [b])"
        using none w(3) by simp
      with b' s show ?thesis by (intro exI[of _ "length scs"]) simp
    next
      fix k1
      assume k1: "k1 < length ?rest" "external rs (?rest ! k1)"
          "filter (external rs) (take k1 ?rest) = []"
        and loop: "scriptLoop rs ?rest (doc ?q) =
          ((doc ?q)\<lparr>body := body (doc ?q) @ map (activated rs) (take (Suc k1) ?rest)\<rparr>,
           Some (reflected_url rs ''src'' (?rest ! k1), drop (Suc k1) ?rest))"
      let ?k' = "k + Suc k1"
      from script_settled_susp[OF w(4) loop[unfolded rs], of b]
      have d: "doc ?q' =
          (doc ?q)\<lparr>body := body (doc ?q) @ map (activated rs) (take (Suc k1) ?rest)\<rparr>"
        and s: "suspended ?q' = [(reflected_url rs ''src'' (?rest ! k1), drop (Suc k1) ?rest)]"
        unfolding q' by (simp_all add: rs)
      have le: "?k' \<le> length scs" using k1(1) by simp
      have nth: "?rest ! k1 = scs ! (?k' - 1)" using k by simp
      have tk: "take ?k' scs = take k scs @ take (Suc k1) ?rest" by (simp only: take_add)
      have b': "body (doc ?q') = body (doc p) @ map (activated rs) (take ?k' scs)"
        using d body by (simp only: tk) simp
      have "length (filter (external rs) (take (Suc k1) ?rest)) = Suc 0"
        using k1 by (simp add: take_Suc_conv_app_nth)
      then have cnt: "length (filter (external rs) (take ?k' scs)) = Suc (length (os @ [b]))"
        using w(3) by (simp only: tk) simp
      have dr: "drop (Suc k1) ?rest = drop ?k' scs" by (simp add: add.commute)
      have "0 < ?k' \<and> external rs (scs ! (?k' - 1)) \<and>
            length (filter (external rs) (take ?k' scs)) = Suc (length (os @ [b])) \<and>
            suspended ?q' = [(reflected_url rs ''src'' (scs ! (?k' - 1)), drop ?k' scs)]"
        using k1(2) cnt s unfolding nth dr by simp
      with le b' show ?thesis by (intro exI[of _ ?k']) blast
    qed
  qed
qed


text \<open>
  C3. From the call of \<^verbatim>\<open>executeScriptsFrom\<close> on the injected result \<open>c\<close>, with no other run
  suspended, and after the settlements \<open>os\<close> of its loads (each a load or an error): the
  elements appended to the body are those of the first \<open>k\<close> script declarations of \<open>c\<close>, in
  document order, and before every declaration visited stand at most as many external
  declarations as loads have settled, so an inline script runs only when every external
  script before it has settled. The loop stands still exactly while a load is
  outstanding: either it waits at the last visited declaration, which is external and the
  one whose load comes after the \<open>length os\<close> settled ones, with the declarations behind it
  still to visit, or every declaration has been visited.
\<close>

theorem scripts_activated_in_document_order:
  assumes "suspended p = []"
    and "scs = filter (has_tag ''script'') (descendants c)"
    and "rs = resolve_url e"
  shows "\<exists>k\<le>length scs.
     body (doc (run e (map (ScriptSettled 0) os) (executeScriptsFrom e (Some c) p))) =
       body (doc p) @ map (activated rs) (take k scs) \<and>
     (\<forall>j<k. length (filter (external rs) (take j scs)) \<le> length os) \<and>
     ((0 < k \<and> external rs (scs ! (k - 1)) \<and>
       length (filter (external rs) (take k scs)) = Suc (length os) \<and>
       suspended (run e (map (ScriptSettled 0) os) (executeScriptsFrom e (Some c) p)) =
         [(reflected_url rs ''src'' (scs ! (k - 1)), drop k scs)]) \<or>
      (k = length scs \<and> length (filter (external rs) scs) \<le> length os \<and>
       suspended (run e (map (ScriptSettled 0) os) (executeScriptsFrom e (Some c) p)) = []))"
proof -
  let ?q = "run e (map (ScriptSettled 0) os) (executeScriptsFrom e (Some c) p)"
  from executeScripts_run[OF assms, of os] obtain k where k: "k \<le> length scs"
    and body: "body (doc ?q) = body (doc p) @ map (activated rs) (take k scs)"
    and st: "(0 < k \<and> external rs (scs ! (k - 1)) \<and>
               length (filter (external rs) (take k scs)) = Suc (length os) \<and>
               suspended ?q = [(reflected_url rs ''src'' (scs ! (k - 1)), drop k scs)]) \<or>
             (k = length scs \<and> length (filter (external rs) scs) \<le> length os \<and>
               suspended ?q = [])"
    by blast
  have "\<forall>j<k. length (filter (external rs) (take j scs)) \<le> length os"
  proof (intro allI impI)
    fix j assume j: "j < k"
    from st show "length (filter (external rs) (take j scs)) \<le> length os"
    proof (elim disjE conjE)
      assume "length (filter (external rs) scs) \<le> length os"
      with filter_take_le_all[of "external rs" j scs] show ?thesis by simp
    next
      assume w: "0 < k" "external rs (scs ! (k - 1))"
        "length (filter (external rs) (take k scs)) = Suc (length os)"
      from w(1) k have "take k scs = take (k - 1) scs @ [scs ! (k - 1)]"
        by (metis Suc_diff_1 Suc_le_lessD take_Suc_conv_app_nth)
      with w(2,3) have "length (filter (external rs) (take (k - 1) scs)) = length os" by simp
      moreover from j have "j \<le> k - 1" by simp
      ultimately show ?thesis using filter_take_le[of j "k - 1" "external rs" scs] by simp
    qed
  qed
  with k body st show ?thesis by blast
qed

theorem scripts_activated_in_document_order_witness:
  "suspended (loaded_page home_doc) = [] \<and>
   body (doc (run all_present (map (ScriptSettled 0) [])
       (executeScriptsFrom all_present (Some map_result) (loaded_page home_doc)))) =
     body home_doc @ [script_element leaflet_js] \<and>
   body (doc (run all_present (map (ScriptSettled 0) [True])
       (executeScriptsFrom all_present (Some map_result) (loaded_page home_doc)))) =
     body home_doc @ [script_element leaflet_js, Element ''script'' [] [] [Text ''L.map()'']]"
proof -
  let ?E = "Element ''script'' [] [(''src'', leaflet_js)] []"
  let ?I = "Element ''script'' [] [] [Text ''L.map()'']"
  let ?q = "executeScriptsFrom all_present (Some map_result) (loaded_page home_doc)"
  have h: "suspended (loaded_page home_doc) = []" by (simp add: loaded_page_def)
  have scs: "[?E, ?I] = filter (has_tag ''script'') (descendants map_result)"
    by (simp add: map_result_def)
  have rs: "sample_resolve = resolve_url all_present" by (simp add: all_present_def)
  have ext: "external sample_resolve ?E" "\<not> external sample_resolve ?I"
    by (simp_all add: external_def sample_resolve_def leaflet_js_def)
  have act: "activated sample_resolve ?E = script_element leaflet_js"
    "activated sample_resolve ?I = ?I"
    by (simp_all add: activated_def external_def inline_element_def sample_resolve_def
        leaflet_js_def)
  have d: "body (doc (loaded_page home_doc)) = body home_doc" by (simp add: loaded_page_def)
  have a: "body (doc (run all_present (map (ScriptSettled 0) []) ?q)) =
      body home_doc @ [script_element leaflet_js]"
  proof -
    from scripts_activated_in_document_order[OF h scs rs, of "[]"]
    obtain k where k: "k \<le> length [?E, ?I]"
      and body: "body (doc (run all_present (map (ScriptSettled 0) []) ?q)) =
        body (doc (loaded_page home_doc)) @ map (activated sample_resolve) (take k [?E, ?I])"
      and st: "(0 < k \<and> external sample_resolve ([?E, ?I] ! (k - 1))) \<or>
               length (filter (external sample_resolve) [?E, ?I]) \<le> length ([] :: bool list)"
      by blast
    from st ext have w: "0 < k" "external sample_resolve ([?E, ?I] ! (k - 1))" by auto
    from w(1) k have "k = 1 \<or> k = 2" by auto
    with w(2) ext(2) have "k = 1" by auto
    with body act d show ?thesis by simp
  qed
  have b: "body (doc (run all_present (map (ScriptSettled 0) [True]) ?q)) =
      body home_doc @ [script_element leaflet_js, ?I]"
  proof -
    from scripts_activated_in_document_order[OF h scs rs, of "[True]"]
    obtain k where k: "k \<le> length [?E, ?I]"
      and body: "body (doc (run all_present (map (ScriptSettled 0) [True]) ?q)) =
        body (doc (loaded_page home_doc)) @ map (activated sample_resolve) (take k [?E, ?I])"
      and st: "length (filter (external sample_resolve) (take k [?E, ?I])) = Suc (length [True]) \<or>
               k = length [?E, ?I]"
      by blast
    have "length (filter (external sample_resolve) (take k [?E, ?I])) \<le>
          length (filter (external sample_resolve) [?E, ?I])"
      by (rule filter_take_le_all)
    also have "\<dots> = 1" using ext by simp
    finally have "length (filter (external sample_resolve) (take k [?E, ?I])) \<noteq> Suc (length [True])"
      by simp
    with st have "k = 2" by simp
    with body act d show ?thesis by simp
  qed
  from h a b show ?thesis by blast
qed




end
